theory Spec2Isabelle
  imports Main "HOL-Library.Word" "HOL-Library.Multiset" "HOL-Library.Sublist"
begin

section \<open>Data model of forward.go\<close>

text \<open>
  The package-level error values of forward.go (\<^verbatim>\<open>ErrNoHealthy\<close>, \<^verbatim>\<open>ErrNoForward\<close>,
  \<^verbatim>\<open>ErrCachedClosed\<close>); every other error a transport call can hand back is \<open>ErrOther\<close>
  with its message.  A Go \<^verbatim>\<open>error\<close> that may be nil is an \<open>error option\<close>.
\<close>

datatype error = ErrNoHealthy | ErrNoForward | ErrCachedClosed | ErrOther string

text \<open>
  A nil pointer dereference is the only way the code of \<^verbatim>\<open>ServeDNS\<close> can panic.
\<close>

datatype fault = NilDeref

text \<open>
  The parts of \<^verbatim>\<open>dns.RR\<close>, \<^verbatim>\<open>dns.Question\<close> and \<^verbatim>\<open>dns.Msg\<close> that forward.go reads or
  writes.  \<^verbatim>\<open>rr.Header().Rrtype\<close> is a \<^verbatim>\<open>uint16\<close>.  The field \<^verbatim>\<open>Name\<close> of a question is
  \<open>Qname\<close> here and the field \<^verbatim>\<open>Id\<close> of a message is \<open>Msg_Id\<close>.
\<close>

record RR =
  Name :: string
  Rrtype :: "16 word"
  Rdata :: string

record Question =
  Qname :: string
  Qtype :: "16 word"
  Qclass :: "16 word"

record Msg =
  Msg_Id :: "16 word"
  Response :: bool
  Authoritative :: bool
  Truncated :: bool
  Rcode :: int
  Question :: "Question list"
  Answer :: "RR list"

definition TypeA :: "16 word" where
  "TypeA = 1"

definition TypeAAAA :: "16 word" where
  "TypeAAAA = 28"

definition RcodeSuccess :: int where
  "RcodeSuccess = 0"

definition RcodeFormatError :: int where
  "RcodeFormatError = 1"

definition RcodeServerFailure :: int where
  "RcodeServerFailure = 2"

text \<open>\<^verbatim>\<open>type options struct { forceTCP bool; preferUDP bool }\<close>\<close>

record options =
  forceTCP :: bool
  preferUDP :: bool

text \<open>\<^verbatim>\<open>type fwdResp struct { ret *dns.Msg; code int; upstreamErr error }\<close>\<close>

record fwdResp =
  ret :: "Msg option"
  code :: int
  upstreamErr :: "error option"

text \<open>
  An upstream \<^verbatim>\<open>*Proxy\<close>, as far as one request sees it.  The type lives outside
  forward.go, so its two methods that \<^verbatim>\<open>ServeDNS\<close> calls are oracles:
  \<^item> \<open>Connect px n os\<close> is what the \<open>n\<close>-th call of \<^verbatim>\<open>proxy.Connect\<close> of this request
    returns when it is given the options \<open>os\<close>: the pair \<^verbatim>\<open>(ret, err)\<close>, each of which
    may be nil;
  \<^item> \<open>Down px mf k\<close> is what the \<open>k\<close>-th call of \<^verbatim>\<open>proxy.Down(mf)\<close> of this request
    returns; call \<open>0\<close> is the one that computes the live set, the later ones are made by
    the worker.  The answer may change between calls: the health checker runs
    concurrently.
\<close>

record Proxy =
  Connect :: "nat \<Rightarrow> options \<Rightarrow> Msg option \<times> error option"
  Down :: "32 word \<Rightarrow> nat \<Rightarrow> bool"

text \<open>
  The fields of \<^verbatim>\<open>Forward\<close> that \<^verbatim>\<open>ServeDNS\<close> and \<^verbatim>\<open>match\<close> read.  The field \<^verbatim>\<open>p\<close> (the
  \<^verbatim>\<open>Policy\<close>, an interface) is the function \<open>policy\<close>, its method \<^verbatim>\<open>List\<close>; the field
  \<^verbatim>\<open>from\<close> is \<open>from'\<close>.
\<close>

record Forward =
  proxies :: "Proxy list"
  policy :: "Proxy list \<Rightarrow> Proxy list"
  from' :: string
  ignored :: "string list"
  maxfails :: "32 word"
  opts :: options

section \<open>Admission: match and isAllowedDomain\<close>

text \<open>
  \<^verbatim>\<open>plugin.Name(z).Matches(name)\<close> is a function of the plugin library, not of this
  repository; it is the parameter \<open>Matches z name\<close>.  \<^verbatim>\<open>dns.Name\<close> is a string type, so
  \<^verbatim>\<open>dns.Name(name) == dns.Name(f.from)\<close> compares the two strings.
\<close>

fun ignored_loop :: "(string \<Rightarrow> string \<Rightarrow> bool) \<Rightarrow> string list \<Rightarrow> string \<Rightarrow> bool" where
  "ignored_loop Matches [] name = True"
| "ignored_loop Matches (ignore # rest) name =
     (if Matches ignore name then False else ignored_loop Matches rest name)"

definition isAllowedDomain :: "(string \<Rightarrow> string \<Rightarrow> bool) \<Rightarrow> Forward \<Rightarrow> string \<Rightarrow> bool" where
  "isAllowedDomain Matches f name =
     (if name = from' f then True else ignored_loop Matches (ignored f) name)"

definition match :: "(string \<Rightarrow> string \<Rightarrow> bool) \<Rightarrow> Forward \<Rightarrow> string \<Rightarrow> bool" where
  "match Matches f name =
     (if \<not> Matches (from' f) name \<or> \<not> isAllowedDomain Matches f name then False else True)"

text \<open>
  A zone matcher to run the definitions on: the root zone matches every name, any other
  zone matches the names that end in it.
\<close>

definition suffix_matches :: "string \<Rightarrow> string \<Rightarrow> bool" where
  "suffix_matches z name = (z = ''.'' \<or> suffix z name)"

section \<open>The worker of ServeDNS\<close>

text \<open>
  What a worker goroutine has done so far: the number of \<^verbatim>\<open>proxy.Connect\<close> calls made,
  the local counter \<^verbatim>\<open>fails\<close> (a \<^verbatim>\<open>uint32\<close>), the number of \<^verbatim>\<open>proxy.Down\<close> calls this
  request has made on the proxy (the next call is call number \<open>downs\<close>), the number of
  \<^verbatim>\<open>proxy.Healthcheck\<close> calls, and the values sent on the channel \<^verbatim>\<open>ch\<close>, oldest first.
\<close>

record wstate =
  calls :: nat
  fails :: "32 word"
  downs :: nat
  probes :: nat
  sent :: "fwdResp list"

text \<open>
  \<^verbatim>\<open>formerr.SetRcode(state.Req, dns.RcodeFormatError)\<close> on a fresh message: the library
  call turns the message into a reply to the request (its id, at most its first
  question, the response bit) with the given rcode; the answer section stays empty.
\<close>

definition SetRcode :: "Msg \<Rightarrow> int \<Rightarrow> Msg" where
  "SetRcode req rc =
     \<lparr>Msg_Id = Msg_Id req, Response = True, Authoritative = False, Truncated = False, Rcode = rc,
      Question = take 1 (Question req), Answer = []\<rparr>"

text \<open>
  Lines 112-123, the inner \<^verbatim>\<open>for\<close>: call \<^verbatim>\<open>Connect\<close>; on \<^verbatim>\<open>ErrCachedClosed\<close> call again; on
  a truncated reply with \<^verbatim>\<open>!opts.forceTCP && opts.preferUDP\<close> set \<^verbatim>\<open>opts.forceTCP\<close> and call
  again; otherwise leave the loop with \<^verbatim>\<open>(ret, err)\<close>.  Nothing bounds the number of
  \<^verbatim>\<open>ErrCachedClosed\<close> rounds, so the loop is a partial function: \<open>None\<close> is a loop that
  never ends.
\<close>

partial_function (option) connect_loop ::
  "Proxy \<Rightarrow> wstate \<Rightarrow> options \<Rightarrow> ((Msg option \<times> error option) \<times> wstate \<times> options) option" where
  "connect_loop px s os =
     (case Connect px (calls s) os of (r, e) \<Rightarrow>
        if e = Some ErrCachedClosed
        then connect_loop px (s\<lparr>calls := Suc (calls s)\<rparr>) os
        else if (case r of None \<Rightarrow> False | Some m \<Rightarrow> Truncated m) \<and> \<not> forceTCP os \<and> preferUDP os
        then connect_loop px (s\<lparr>calls := Suc (calls s)\<rparr>) (os\<lparr>forceTCP := True\<rparr>)
        else Some ((r, e), s\<lparr>calls := Suc (calls s)\<rparr>, os))"

declare connect_loop.simps [code]

text \<open>
  Lines 129-146, the branch \<^verbatim>\<open>err != nil\<close> up to the test of \<^verbatim>\<open>proxy.Down\<close>: the health
  check (when \<^verbatim>\<open>f.maxfails != 0\<close>), \<^verbatim>\<open>fails++\<close>, and the call of \<^verbatim>\<open>proxy.Down\<close>.  The result
  is the new state and the answer of \<^verbatim>\<open>Down\<close>.
\<close>

definition count_failure :: "Forward \<Rightarrow> Proxy \<Rightarrow> wstate \<Rightarrow> wstate \<times> bool" where
  "count_failure f px s =
     (let s1 = (if maxfails f \<noteq> 0 then s\<lparr>probes := Suc (probes s)\<rparr> else s);
          s2 = s1\<lparr>fails := fails s1 + 1\<rparr>
      in (s2\<lparr>downs := Suc (downs s2)\<rparr>, Down px (maxfails f) (downs s2)))"

definition push :: "fwdResp \<Rightarrow> wstate \<Rightarrow> wstate" where
  "push resp s = s\<lparr>sent := sent s @ [resp]\<rparr>"

text \<open>
  Lines 100-167, the loop \<^verbatim>\<open>for fails < f.maxfails\<close> of the goroutine.  \<open>Match\<close> is
  \<^verbatim>\<open>state.Match\<close> of the request library and \<open>req\<close> is \<^verbatim>\<open>state.Req\<close>.  \<^verbatim>\<open>opts := f.opts\<close> is
  inside the loop: every round starts from the configured options.  With \<^verbatim>\<open>err == nil\<close>
  the code reads fields of \<^verbatim>\<open>ret\<close> (in \<^verbatim>\<open>state.Match\<close> and in the arguments of
  \<^verbatim>\<open>debug.Hexdumpf\<close>), so a nil \<^verbatim>\<open>ret\<close> there is a panic.  The result is \<open>None\<close> when the
  goroutine never ends, \<open>Inl\<close> when it panics and \<open>Inr\<close> its last state when it returns.
  The tracing spans (\<^verbatim>\<open>span\<close>, \<^verbatim>\<open>child\<close>) are left out: no result depends on them.
\<close>

partial_function (option) worker_loop ::
  "(Msg \<Rightarrow> bool) \<Rightarrow> Msg \<Rightarrow> Forward \<Rightarrow> Proxy \<Rightarrow> wstate \<Rightarrow> (fault + wstate) option" where
  "worker_loop Match req f px s =
     (if fails s < maxfails f then
        Option.bind (connect_loop px s (opts f)) (\<lambda>((r, e), s1, os).
          case e of
            Some e1 \<Rightarrow>
              (case count_failure f px s1 of (s2, down) \<Rightarrow>
                 if \<not> down then worker_loop Match req f px s2
                 else Some (Inr (push \<lparr>ret = None, code = 0, upstreamErr = Some e1\<rparr> s2)))
          | None \<Rightarrow>
              (case r of
                 None \<Rightarrow> Some (Inl NilDeref)
               | Some m \<Rightarrow>
                   if \<not> Match m
                   then Some (Inr (push \<lparr>ret = Some (SetRcode req RcodeFormatError), code = 0,
                                         upstreamErr = None\<rparr> s1))
                   else Some (Inr (push \<lparr>ret = Some m, code = 0, upstreamErr = None\<rparr> s1))))
      else Some (Inr s))"

declare worker_loop.simps [code]

text \<open>
  The goroutine starts with \<^verbatim>\<open>fails = 0\<close>; the live-set filter has made call \<open>0\<close> of
  \<^verbatim>\<open>proxy.Down\<close> already.
\<close>

definition worker_init :: wstate where
  "worker_init = \<lparr>calls = 0, fails = 0, downs = 1, probes = 0, sent = []\<rparr>"

definition worker :: "(Msg \<Rightarrow> bool) \<Rightarrow> Msg \<Rightarrow> Forward \<Rightarrow> Proxy \<Rightarrow> (fault + wstate) option" where
  "worker Match req f px = worker_loop Match req f px worker_init"

section \<open>The aggregation of ServeDNS\<close>

text \<open>
  Lines 185-194, the loop over \<^verbatim>\<open>resp.ret.Answer\<close>: an A or AAAA record is appended to
  \<^verbatim>\<open>ipAnswers\<close> and makes \<^verbatim>\<open>resp.ret\<close> the value of \<^verbatim>\<open>successRet\<close>.
\<close>

fun answer_loop :: "Msg \<Rightarrow> RR list \<Rightarrow> RR list \<times> Msg option \<Rightarrow> RR list \<times> Msg option" where
  "answer_loop m [] acc = acc"
| "answer_loop m (rr # rrs) (ipAnswers, successRet) =
     (if Rrtype rr = TypeA then answer_loop m rrs (ipAnswers @ [rr], Some m)
      else if Rrtype rr = TypeAAAA then answer_loop m rrs (ipAnswers @ [rr], Some m)
      else answer_loop m rrs (ipAnswers, successRet))"

text \<open>Lines 181-195, the loop over \<^verbatim>\<open>resps\<close>; a response with a nil \<^verbatim>\<open>ret\<close> is skipped.\<close>

fun resps_loop :: "fwdResp list \<Rightarrow> RR list \<times> Msg option \<Rightarrow> RR list \<times> Msg option" where
  "resps_loop [] acc = acc"
| "resps_loop (resp # rest) acc =
     (case ret resp of
        None \<Rightarrow> resps_loop rest acc
      | Some m \<Rightarrow> resps_loop rest (answer_loop m (Answer m) acc))"

text \<open>Lines 203-209: the first non-nil \<^verbatim>\<open>upstreamErr\<close> of \<^verbatim>\<open>resps\<close>.\<close>

fun err_loop :: "fwdResp list \<Rightarrow> error option" where
  "err_loop [] = None"
| "err_loop (resp # rest) =
     (case upstreamErr resp of None \<Rightarrow> err_loop rest | Some e \<Rightarrow> Some e)"

text \<open>
  What \<^verbatim>\<open>ServeDNS\<close> hands back: the two return values, and the message given to
  \<^verbatim>\<open>w.WriteMsg\<close> (\<open>None\<close> when \<^verbatim>\<open>WriteMsg\<close> was not called).
\<close>

record result =
  rcode :: int
  err :: "error option"
  written :: "Msg option"

text \<open>
  Lines 179-211.  \<^verbatim>\<open>successRet.Answer = ipAnswers\<close> writes through the pointer
  \<^verbatim>\<open>successRet\<close>; were it nil there, the assignment would panic.
\<close>

definition aggregate :: "fwdResp list \<Rightarrow> fault + result" where
  "aggregate resps =
     (case resps_loop resps ([], None) of (ipAnswers, successRet) \<Rightarrow>
        if length ipAnswers > 0 then
          (case successRet of
             None \<Rightarrow> Inl NilDeref
           | Some m \<Rightarrow> Inr \<lparr>rcode = 0, err = None, written = Some (m\<lparr>Answer := ipAnswers\<rparr>)\<rparr>)
        else
          (case err_loop resps of
             Some e \<Rightarrow> Inr \<lparr>rcode = RcodeServerFailure, err = Some e, written = None\<rparr>
           | None \<Rightarrow> Inr \<lparr>rcode = RcodeServerFailure, err = Some ErrNoHealthy, written = None\<rparr>))"

section \<open>ServeDNS\<close>

text \<open>\<^verbatim>\<open>func (f *Forward) List() []*Proxy { return f.p.List(f.proxies) }\<close>\<close>

definition List_f :: "Forward \<Rightarrow> Proxy list" where
  "List_f f = policy f (proxies f)"

text \<open>Lines 81-87: the proxies of the list that are not down at dispatch.\<close>

fun live_loop :: "Forward \<Rightarrow> Proxy list \<Rightarrow> Proxy list \<Rightarrow> Proxy list" where
  "live_loop f [] live = live"
| "live_loop f (proxy # rest) live =
     (if Down proxy (maxfails f) 0 then live_loop f rest live
      else live_loop f rest (live @ [proxy]))"

text \<open>
  The goroutines run concurrently and each sends on \<^verbatim>\<open>ch\<close> when it is done, so the
  order of \<^verbatim>\<open>resps\<close> is the order in which the workers finish.  The schedule is the list
  \<open>ks\<close>: the value sent by the first worker goes to position \<open>k mod (n + 1)\<close> among the
  \<open>n\<close> values of the workers after it.  An empty schedule keeps the order of \<open>live\<close>.
\<close>

fun arrival :: "nat list \<Rightarrow> 'a list \<Rightarrow> 'a list" where
  "arrival ks [] = []"
| "arrival [] (x # xs) = x # xs"
| "arrival (k # ks) (x # xs) =
     (let later = arrival ks xs; i = k mod Suc (length later)
      in take i later @ [x] @ drop i later)"

text \<open>
  Lines 89-177: start the workers, wait for all of them, read the channel.  A worker
  that panics ends the process whatever the others do (\<open>Inl\<close>); otherwise a worker that
  never ends blocks \<^verbatim>\<open>wg.Wait()\<close> for ever (\<open>None\<close>); otherwise the result is \<^verbatim>\<open>resps\<close>.
\<close>

definition fanout ::
  "(Msg \<Rightarrow> bool) \<Rightarrow> nat list \<Rightarrow> Msg \<Rightarrow> Forward \<Rightarrow> Proxy list \<Rightarrow> (fault + fwdResp list) option" where
  "fanout Match sched req f live =
     (let runs = map (worker Match req f) live in
      if list_ex (\<lambda>run. case run of Some (Inl _) \<Rightarrow> True | _ \<Rightarrow> False) runs then Some (Inl NilDeref)
      else if list_ex (\<lambda>run. run = None) runs then None
      else Some (Inr (arrival sched
             (concat (map (\<lambda>run. case run of Some (Inr s) \<Rightarrow> sent s | _ \<Rightarrow> []) runs)))))"

text \<open>
  \<^verbatim>\<open>ServeDNS\<close> for the request \<open>req\<close> whose \<^verbatim>\<open>state.Name()\<close> is \<open>name\<close>.  \<open>nxt\<close> is what
  \<^verbatim>\<open>plugin.NextOrFailure\<close> returns for a request that does not match.
\<close>

definition ServeDNS ::
  "(string \<Rightarrow> string \<Rightarrow> bool) \<Rightarrow> (Msg \<Rightarrow> bool) \<Rightarrow> (fault + result) option \<Rightarrow> nat list \<Rightarrow>
   Forward \<Rightarrow> Msg \<Rightarrow> string \<Rightarrow> (fault + result) option" where
  "ServeDNS Matches Match nxt sched f req name =
     (if \<not> match Matches f name then nxt
      else
        let live = live_loop f (List_f f) [] in
        case fanout Match sched req f live of
          None \<Rightarrow> None
        | Some (Inl ft) \<Rightarrow> Some (Inl ft)
        | Some (Inr resps) \<Rightarrow> Some (aggregate resps))"

section \<open>The vocabulary of the specification\<close>

text \<open>
  The definitions of this section follow the words of the specification; the theorems
  compare them with the definitions above, which follow the code.
\<close>

text \<open>An address record is an A record or an AAAA record.\<close>

definition is_address :: "RR \<Rightarrow> bool" where
  "is_address rr \<longleftrightarrow> Rrtype rr = TypeA \<or> Rrtype rr = TypeAAAA"

text \<open>
  The address records of every reply among the results, in the order of the results and,
  within a reply, in the order of its answer section; nothing is removed.
\<close>

definition address_records :: "fwdResp list \<Rightarrow> RR list" where
  "address_records resps =
     concat (map (\<lambda>resp. case ret resp of None \<Rightarrow> [] | Some m \<Rightarrow> filter is_address (Answer m)) resps)"

text \<open>The replies among the results, in the order of the results.\<close>

definition replies :: "fwdResp list \<Rightarrow> Msg list" where
  "replies resps = List.map_filter ret resps"

definition has_address :: "Msg \<Rightarrow> bool" where
  "has_address m = list_ex is_address (Answer m)"

definition first_option :: "'a list \<Rightarrow> 'a option" where
  "first_option xs = (case xs of [] \<Rightarrow> None | x # _ \<Rightarrow> Some x)"

definition last_option :: "'a list \<Rightarrow> 'a option" where
  "last_option xs = first_option (rev xs)"

text \<open>The transport errors among the results, in the order of the results.\<close>

definition transport_errors :: "fwdResp list \<Rightarrow> error list" where
  "transport_errors resps = List.map_filter upstreamErr resps"

text \<open>
  The live upstream set: the list of the policy without the upstreams that are down at
  dispatch.
\<close>

definition live_set :: "Forward \<Rightarrow> Proxy list" where
  "live_set f = filter (\<lambda>px. \<not> Down px (maxfails f) 0) (List_f f)"

text \<open>
  An upstream whose every \<^verbatim>\<open>Connect\<close> call fails with a generic transport error: an error
  that is not \<^verbatim>\<open>ErrCachedClosed\<close>, and no truncated reply beside it.
\<close>

definition generic_failure :: "Proxy \<Rightarrow> bool" where
  "generic_failure px \<longleftrightarrow>
     (\<forall>n os. case Connect px n os of
        (r, e) \<Rightarrow> e \<noteq> None \<and> e \<noteq> Some ErrCachedClosed \<and>
                  (case r of None \<Rightarrow> True | Some m \<Rightarrow> \<not> Truncated m))"

text \<open>
  The number of attempts of a worker that has \<open>n\<close> failures left in its budget and whose
  next call of \<^verbatim>\<open>proxy.Down\<close> is call \<open>k\<close>, when every attempt fails: it stops after the
  first failure after which the proxy is down, and when the budget is used up.
\<close>

fun attempts :: "(nat \<Rightarrow> bool) \<Rightarrow> nat \<Rightarrow> nat \<Rightarrow> nat" where
  "attempts down k 0 = 0"
| "attempts down k (Suc n) = (if down k then 1 else Suc (attempts down (Suc k) n))"

section \<open>Inputs to run the definitions on\<close>

definition ex_query :: Msg where
  "ex_query = \<lparr>Msg_Id = 7, Response = False, Authoritative = False, Truncated = False,
                Rcode = 0,
                Question = [\<lparr>Qname = ''www.example.org.'', Qtype = 1, Qclass = 1\<rparr>],
                Answer = []\<rparr>"

definition ex_Match :: "Msg \<Rightarrow> bool" where
  "ex_Match m = (Msg_Id m = Msg_Id ex_query \<and> Response m)"

definition rr_A :: RR where
  "rr_A = \<lparr>Name = ''www.example.org.'', Rrtype = 1, Rdata = ''192.0.2.1''\<rparr>"

definition rr_AAAA :: RR where
  "rr_AAAA = \<lparr>Name = ''www.example.org.'', Rrtype = 28, Rdata = ''2001:db8::1''\<rparr>"

definition rr_CNAME :: RR where
  "rr_CNAME = \<lparr>Name = ''www.example.org.'', Rrtype = 5, Rdata = ''host.example.org.''\<rparr>"

definition reply_A :: Msg where
  "reply_A = ex_query\<lparr>Response := True, Answer := [rr_CNAME, rr_A, rr_A]\<rparr>"

definition reply_AAAA :: Msg where
  "reply_AAAA = ex_query\<lparr>Response := True, Answer := [rr_AAAA]\<rparr>"

definition reply_CNAME :: Msg where
  "reply_CNAME = ex_query\<lparr>Response := True, Authoritative := True, Answer := [rr_CNAME]\<rparr>"

definition reply_wrong_id :: Msg where
  "reply_wrong_id = reply_A\<lparr>Msg_Id := 8\<rparr>"

definition reply_truncated :: Msg where
  "reply_truncated = ex_query\<lparr>Response := True, Truncated := True\<rparr>"

definition ok :: "Msg \<Rightarrow> fwdResp" where
  "ok m = \<lparr>ret = Some m, code = 0, upstreamErr = None\<rparr>"

definition failed :: "error \<Rightarrow> fwdResp" where
  "failed e = \<lparr>ret = None, code = 0, upstreamErr = Some e\<rparr>"

text \<open>An upstream that times out on every call and is never marked down.\<close>

definition px_timeout :: Proxy where
  "px_timeout = \<lparr>Connect = (\<lambda>n os. (None, Some (ErrOther ''i/o timeout''))),
                 Down = (\<lambda>mf k. False)\<rparr>"

text \<open>
  An upstream that times out on every call and that the health checker marks down
  between dispatch and the worker's first failure.
\<close>

definition px_goes_down :: Proxy where
  "px_goes_down = \<lparr>Connect = (\<lambda>n os. (None, Some (ErrOther ''i/o timeout''))),
                   Down = (\<lambda>mf k. 0 < k)\<rparr>"

text \<open>An upstream that is down at dispatch.\<close>

definition px_down :: Proxy where
  "px_down = \<lparr>Connect = (\<lambda>n os. (None, Some (ErrOther ''i/o timeout''))),
              Down = (\<lambda>mf k. True)\<rparr>"

text \<open>An upstream that answers every call.\<close>

definition px_answers :: Proxy where
  "px_answers = \<lparr>Connect = (\<lambda>n os. (Some reply_A, None)), Down = (\<lambda>mf k. False)\<rparr>"

text \<open>An upstream that answers a query with another query's reply.\<close>

definition px_wrong_id :: Proxy where
  "px_wrong_id = \<lparr>Connect = (\<lambda>n os. (Some reply_wrong_id, None)), Down = (\<lambda>mf k. False)\<rparr>"

text \<open>An upstream whose reply over UDP is truncated and whose reply over TCP is whole.\<close>

definition px_truncates :: Proxy where
  "px_truncates = \<lparr>Connect = (\<lambda>n os. if forceTCP os then (Some reply_A, None)
                                       else (Some reply_truncated, None)),
                   Down = (\<lambda>mf k. False)\<rparr>"

definition ex_opts :: options where
  "ex_opts = \<lparr>forceTCP = False, preferUDP = True\<rparr>"

text \<open>A configuration with the given upstreams and threshold, as \<^verbatim>\<open>New\<close> sets the rest.\<close>

definition ex_forward :: "Proxy list \<Rightarrow> 32 word \<Rightarrow> Forward" where
  "ex_forward pxs mf =
     \<lparr>proxies = pxs, policy = (\<lambda>ps. ps), from' = ''.'', ignored = [], maxfails = mf,
      opts = ex_opts\<rparr>"

text \<open>A configuration for the zone example.org that excludes one subdomain.\<close>

definition ex_zone :: Forward where
  "ex_zone = (ex_forward [] 2)\<lparr>from' := ''example.org.'', ignored := [''internal.example.org.'']\<rparr>"

text \<open>The same zone with an exclusion that covers the whole zone.\<close>

definition ex_zone_excluded :: Forward where
  "ex_zone_excluded = ex_zone\<lparr>ignored := [''internal.example.org.'', ''org.'']\<rparr>"

text \<open>Results of four workers: two with address records, a failure, a reply without any.\<close>

definition ex_resps :: "fwdResp list" where
  "ex_resps = [ok reply_A, failed (ErrOther ''i/o timeout''), ok reply_AAAA, ok reply_CNAME]"

text \<open>Results without an address record: with transport errors, and without any.\<close>

definition ex_failures :: "fwdResp list" where
  "ex_failures = [ok reply_CNAME, failed (ErrOther ''connection refused''),
                  failed (ErrOther ''i/o timeout'')]"

definition ex_no_error :: "fwdResp list" where
  "ex_no_error = [ok (SetRcode ex_query RcodeFormatError), ok reply_CNAME]"

text \<open>Results whose last reply has no address record.\<close>

definition ex_last_without_address :: "fwdResp list" where
  "ex_last_without_address = [ok reply_A, ok reply_CNAME]"

section \<open>Admission: theorems\<close>

lemma ignored_loop_iff:
  "ignored_loop Matches igs name \<longleftrightarrow> \<not> (\<exists>ig \<in> set igs. Matches ig name)"
  by (induction igs) auto

text \<open>
  Claim C8.  A name other than the zone itself is admitted by \<^verbatim>\<open>match\<close> exactly when it
  falls under the configured zone and no exclusion pattern matches it.  For the name of
  the zone itself the exclusion patterns are not consulted: it is admitted exactly when
  it falls under the zone, so it is admitted whenever the zone matches its own name,
  whatever the exclusion patterns are.
\<close>

theorem match_admits_zone_minus_exclusions:
  "(name \<noteq> from' f \<longrightarrow>
      (match Matches f name \<longleftrightarrow>
         Matches (from' f) name \<and> \<not> (\<exists>ig \<in> set (ignored f). Matches ig name)))
   \<and> (name = from' f \<longrightarrow> (match Matches f name \<longleftrightarrow> Matches (from' f) name))
   \<and> (name = from' f \<and> Matches (from' f) (from' f) \<longrightarrow> match Matches f name)"
  by (simp add: match_def isAllowedDomain_def ignored_loop_iff)

text \<open>
  The zone example.org with the exclusion internal.example.org, and the same zone with an
  exclusion (org) that covers all of it: only the name of the zone is still admitted.
\<close>

theorem match_admits_zone_minus_exclusions_witness:
  "match suffix_matches ex_zone ''www.example.org.''
   \<and> \<not> match suffix_matches ex_zone ''db.internal.example.org.''
   \<and> \<not> match suffix_matches ex_zone ''www.example.com.''
   \<and> \<not> match suffix_matches ex_zone_excluded ''www.example.org.''
   \<and> match suffix_matches ex_zone_excluded ''example.org.''
   \<and> suffix_matches ''org.'' ''example.org.''
   \<and> suffix_matches (from' ex_zone_excluded) (from' ex_zone_excluded)"
  using match_admits_zone_minus_exclusions [of "''www.example.org.''" ex_zone suffix_matches]
    match_admits_zone_minus_exclusions [of "''db.internal.example.org.''" ex_zone suffix_matches]
    match_admits_zone_minus_exclusions [of "''www.example.com.''" ex_zone suffix_matches]
    match_admits_zone_minus_exclusions [of "''www.example.org.''" ex_zone_excluded suffix_matches]
    match_admits_zone_minus_exclusions [of "''example.org.''" ex_zone_excluded suffix_matches]
  by (simp add: ex_zone_excluded_def ex_zone_def ex_forward_def suffix_matches_def suffix_to_prefix)

section \<open>Aggregation: theorems\<close>

lemma answer_loop_eq:
  "answer_loop m rrs (ips, sr) =
     (ips @ filter is_address rrs, if list_ex is_address rrs then Some m else sr)"
  by (induction rrs arbitrary: ips sr) (auto simp: is_address_def)

lemma last_option_simps [simp]:
  "last_option [] = None" "last_option (xs @ [x]) = Some x"
  by (simp_all add: last_option_def first_option_def)

lemma last_option_Cons:
  "last_option (x # xs) = (case last_option xs of None \<Rightarrow> Some x | Some y \<Rightarrow> Some y)"
  by (cases xs rule: rev_cases) (simp_all add: last_option_def first_option_def)

lemma replies_simps [simp]:
  "replies [] = []"
  "replies (resp # rest) = (case ret resp of None \<Rightarrow> replies rest | Some m \<Rightarrow> m # replies rest)"
  by (simp_all add: replies_def List.map_filter_simps split: option.splits)

lemma address_records_simps [simp]:
  "address_records [] = []"
  "address_records (resp # rest) =
     (case ret resp of None \<Rightarrow> [] | Some m \<Rightarrow> filter is_address (Answer m)) @ address_records rest"
  by (simp_all add: address_records_def)

lemma resps_loop_eq:
  "resps_loop resps (ips, sr) =
     (ips @ address_records resps,
      case last_option (filter has_address (replies resps)) of None \<Rightarrow> sr | Some m \<Rightarrow> Some m)"
proof (induction resps arbitrary: ips sr)
  case Nil
  show ?case by simp
next
  case (Cons resp rest)
  show ?case
  proof (cases "ret resp")
    case None
    then show ?thesis using Cons.IH by simp
  next
    case (Some m)
    then show ?thesis
      using Cons.IH by (simp add: answer_loop_eq has_address_def last_option_Cons split: option.splits)
  qed
qed

lemma address_records_nonempty_iff:
  "address_records resps \<noteq> [] \<longleftrightarrow> filter has_address (replies resps) \<noteq> []"
  by (induction resps) (auto simp: has_address_def list_ex_iff filter_empty_conv split: option.splits)

lemma address_records_exists_iff:
  "address_records resps \<noteq> [] \<longleftrightarrow>
     (\<exists>resp \<in> set resps. \<exists>m. ret resp = Some m \<and> (\<exists>rr \<in> set (Answer m). is_address rr))"
  by (induction resps) (auto simp: filter_empty_conv split: option.splits)

lemma last_option_None_iff: "last_option xs = None \<longleftrightarrow> xs = []"
  by (cases xs rule: rev_cases) simp_all

lemma err_loop_eq: "err_loop resps = first_option (transport_errors resps)"
  by (induction resps)
    (auto simp: first_option_def transport_errors_def List.map_filter_simps split: option.splits)

lemma mset_address_records:
  assumes "mset resps' = mset resps"
  shows "mset (address_records resps') = mset (address_records resps)"
proof -
  let ?g = "\<lambda>resp. case ret resp of None \<Rightarrow> [] | Some m \<Rightarrow> filter is_address (Answer m)"
  have "mset (address_records xs) = (\<Sum>r\<in>#mset xs. mset (?g r))" for xs
    by (induction xs) simp_all
  then show ?thesis using assms by simp
qed

text \<open>The code's aggregation in the words of the specification.\<close>

lemma aggregate_eq:
  "aggregate resps =
     (if address_records resps \<noteq> [] then
        (case last_option (filter has_address (replies resps)) of
           None \<Rightarrow> Inl NilDeref
         | Some m \<Rightarrow> Inr \<lparr>rcode = 0, err = None, written = Some (m\<lparr>Answer := address_records resps\<rparr>)\<rparr>)
      else Inr \<lparr>rcode = RcodeServerFailure,
                err = Some (case first_option (transport_errors resps) of
                              None \<Rightarrow> ErrNoHealthy | Some e \<Rightarrow> e),
                written = None\<rparr>)"
  by (simp add: aggregate_def resps_loop_eq err_loop_eq split: option.splits)

lemma aggregate_success:
  assumes "address_records resps \<noteq> []"
  shows "\<exists>m. last_option (filter has_address (replies resps)) = Some m \<and>
             aggregate resps =
               Inr \<lparr>rcode = 0, err = None, written = Some (m\<lparr>Answer := address_records resps\<rparr>)\<rparr>"
proof -
  from assms have "filter has_address (replies resps) \<noteq> []"
    by (simp add: address_records_nonempty_iff)
  then obtain m where "last_option (filter has_address (replies resps)) = Some m"
    using last_option_None_iff by fastforce
  then show ?thesis using assms by (simp add: aggregate_eq)
qed

text \<open>
  Claim C2.  If at least one reply among the results contains an address record, then
  \<^verbatim>\<open>ServeDNS\<close> writes a reply and returns \<^verbatim>\<open>(0, nil)\<close>; the answer section of the written
  reply is the concatenation of the A and AAAA records of every reply among the results,
  in collection order, with nothing removed; and for every other arrival order of the
  same results the written answer section is the same multiset.  (A format-error reply
  made by a worker has an empty answer section and adds nothing.)
\<close>

theorem answer_is_all_address_records:
  assumes "\<exists>resp \<in> set resps. \<exists>m. ret resp = Some m \<and> (\<exists>rr \<in> set (Answer m). is_address rr)"
  shows "\<exists>w. aggregate resps = Inr \<lparr>rcode = 0, err = None, written = Some w\<rparr>
             \<and> Answer w = address_records resps
             \<and> (\<forall>resps'. mset resps' = mset resps \<longrightarrow>
                  (\<exists>w'. aggregate resps' = Inr \<lparr>rcode = 0, err = None, written = Some w'\<rparr>
                        \<and> mset (Answer w') = mset (Answer w)))"
proof -
  from assms have ne: "address_records resps \<noteq> []"
    by (simp add: address_records_exists_iff)
  from aggregate_success [OF ne] obtain m where
    m: "aggregate resps =
          Inr \<lparr>rcode = 0, err = None, written = Some (m\<lparr>Answer := address_records resps\<rparr>)\<rparr>"
    by blast
  have "\<exists>w'. aggregate resps' = Inr \<lparr>rcode = 0, err = None, written = Some w'\<rparr>
             \<and> mset (Answer w') = mset (address_records resps)"
    if p: "mset resps' = mset resps" for resps'
  proof -
    from p have eq: "mset (address_records resps') = mset (address_records resps)"
      by (rule mset_address_records)
    with ne have "address_records resps' \<noteq> []" by (metis mset_zero_iff)
    from aggregate_success [OF this] eq show ?thesis by auto
  qed
  with m show ?thesis by auto
qed


lemma ex_address_records:
  "address_records ex_resps = [rr_A, rr_A, rr_AAAA]"
  by (simp add: ex_resps_def ok_def failed_def reply_A_def reply_AAAA_def reply_CNAME_def
      is_address_def rr_A_def rr_AAAA_def rr_CNAME_def TypeA_def TypeAAAA_def)

text \<open>The four results of \<open>ex_resps\<close>, and the same results in the opposite order.\<close>

theorem answer_is_all_address_records_witness:
  "(\<exists>resp \<in> set ex_resps. \<exists>m. ret resp = Some m \<and> (\<exists>rr \<in> set (Answer m). is_address rr))
   \<and> (\<exists>w. aggregate ex_resps = Inr \<lparr>rcode = 0, err = None, written = Some w\<rparr>
          \<and> Answer w = [rr_A, rr_A, rr_AAAA]
          \<and> (\<exists>w'. aggregate (rev ex_resps) = Inr \<lparr>rcode = 0, err = None, written = Some w'\<rparr>
                 \<and> mset (Answer w') = mset (Answer w)))"
proof -
  have h: "\<exists>resp \<in> set ex_resps. \<exists>m. ret resp = Some m \<and> (\<exists>rr \<in> set (Answer m). is_address rr)"
    by (simp add: ex_resps_def ok_def reply_A_def is_address_def rr_A_def TypeA_def)
  have r: "mset (rev ex_resps) = mset ex_resps" by simp
  from answer_is_all_address_records [OF h] r h show ?thesis
    by (auto simp only: ex_address_records)
qed

text \<open>
  Claim C4.  When the loop over the results has collected no address record,
  \<^verbatim>\<open>ServeDNS\<close> writes nothing and returns the server-failure rcode; the error is the first
  transport error among the results in collection order when there is one, and
  \<^verbatim>\<open>ErrNoHealthy\<close> otherwise.
\<close>

theorem no_address_gives_first_error:
  assumes "fst (resps_loop resps ([], None)) = []"
  shows "aggregate resps =
           Inr \<lparr>rcode = RcodeServerFailure,
                err = Some (case first_option (transport_errors resps) of
                              Some e \<Rightarrow> e | None \<Rightarrow> ErrNoHealthy),
                written = None\<rparr>"
proof -
  from assms have "address_records resps = []" by (simp add: resps_loop_eq)
  then show ?thesis by (simp add: aggregate_eq split: option.splits)
qed

text \<open>Two failures after a reply without addresses; and two replies without addresses.\<close>

theorem no_address_gives_first_error_witness:
  "fst (resps_loop ex_failures ([], None)) = []
   \<and> aggregate ex_failures =
       Inr \<lparr>rcode = 2, err = Some (ErrOther ''connection refused''), written = None\<rparr>
   \<and> fst (resps_loop ex_no_error ([], None)) = []
   \<and> aggregate ex_no_error = Inr \<lparr>rcode = 2, err = Some ErrNoHealthy, written = None\<rparr>"
proof -
  have h1: "fst (resps_loop ex_failures ([], None)) = []"
    by (simp add: ex_failures_def ok_def failed_def reply_CNAME_def rr_CNAME_def
        TypeA_def TypeAAAA_def)
  have h2: "fst (resps_loop ex_no_error ([], None)) = []"
    by (simp add: ex_no_error_def ok_def SetRcode_def reply_CNAME_def rr_CNAME_def
        TypeA_def TypeAAAA_def)
  from no_address_gives_first_error [OF h1] no_address_gives_first_error [OF h2] h1 h2
  show ?thesis
    by (simp add: ex_failures_def ex_no_error_def ok_def failed_def transport_errors_def
        List.map_filter_simps first_option_def RcodeServerFailure_def)
qed

text \<open>
  Claim C9, as stated, is false.  It says that the written reply is the last reply in
  collection order with its answer section replaced.  For a reply with two A records
  followed by a reply with a CNAME record only, the last reply is the second one, and
  the written reply is made from the first one.
\<close>

theorem template_is_last_reply_counterexample:
  "address_records ex_last_without_address \<noteq> []
   \<and> last_option (replies ex_last_without_address) = Some reply_CNAME
   \<and> aggregate ex_last_without_address \<noteq>
       Inr \<lparr>rcode = 0, err = None,
            written = Some (reply_CNAME\<lparr>Answer := address_records ex_last_without_address\<rparr>)\<rparr>
   \<and> aggregate ex_last_without_address =
       Inr \<lparr>rcode = 0, err = None,
            written = Some (reply_A\<lparr>Answer := address_records ex_last_without_address\<rparr>)\<rparr>"
  by (simp add: aggregate_def ex_last_without_address_def ok_def reply_A_def reply_CNAME_def
      ex_query_def rr_A_def rr_CNAME_def TypeA_def TypeAAAA_def is_address_def
      last_option_def first_option_def)

text \<open>
  Claim C9, amended.  When the combined answer list is not empty, the reply that is
  written is the last reply in collection order that contains at least one address
  record, with its answer section replaced by the combined list.
\<close>

theorem template_is_last_reply_with_address:
  assumes "fst (resps_loop resps ([], None)) \<noteq> []"
  shows "\<exists>m. last_option (filter has_address (replies resps)) = Some m
             \<and> aggregate resps =
                 Inr \<lparr>rcode = 0, err = None,
                      written = Some (m\<lparr>Answer := fst (resps_loop resps ([], None))\<rparr>)\<rparr>"
proof -
  from assms have "address_records resps \<noteq> []" by (simp add: resps_loop_eq)
  from aggregate_success [OF this] show ?thesis by (simp add: resps_loop_eq)
qed

text \<open>The same two results: the reply with the A records is the template.\<close>

theorem template_is_last_reply_with_address_witness:
  "fst (resps_loop ex_last_without_address ([], None)) \<noteq> []
   \<and> last_option (filter has_address (replies ex_last_without_address)) = Some reply_A
   \<and> aggregate ex_last_without_address =
       Inr \<lparr>rcode = 0, err = None, written = Some (reply_A\<lparr>Answer := [rr_A, rr_A]\<rparr>)\<rparr>"
proof -
  have v: "fst (resps_loop ex_last_without_address ([], None)) = [rr_A, rr_A]"
    by (simp add: ex_last_without_address_def ok_def reply_A_def reply_CNAME_def rr_A_def
        rr_CNAME_def TypeA_def TypeAAAA_def)
  then have h: "fst (resps_loop ex_last_without_address ([], None)) \<noteq> []"
    by simp
  have l: "last_option (filter has_address (replies ex_last_without_address)) = Some reply_A"
    by (simp add: ex_last_without_address_def ok_def reply_A_def reply_CNAME_def rr_A_def
        rr_CNAME_def has_address_def is_address_def TypeA_def TypeAAAA_def last_option_def
        first_option_def)
  from template_is_last_reply_with_address [OF h] h v l show ?thesis by simp
qed

section \<open>The worker: theorems\<close>

lemma connect_loop_keeps:
  assumes "connect_loop px s os = Some (x, s', os')"
  shows "fails s' = fails s \<and> downs s' = downs s \<and> probes s' = probes s \<and> sent s' = sent s \<and>
         calls s < calls s'"
proof -
  let ?P = "\<lambda>(px::Proxy) s (os::options) (y :: (Msg option \<times> error option) \<times> wstate \<times> options).
     fails (fst (snd y)) = fails s \<and> downs (fst (snd y)) = downs s \<and>
     probes (fst (snd y)) = probes s \<and> sent (fst (snd y)) = sent s \<and>
     calls s < calls (fst (snd y))"
  have "?P px s os (x, s', os')"
  proof (rule connect_loop.raw_induct [where P = ?P, OF _ assms])
    fix cl px s os y
    assume IH: "\<And>px s os y. cl px s os = Some y \<Longrightarrow> ?P px s os y"
      and body: "(case Connect px (calls s) os of
        (r, e) \<Rightarrow>
          if e = Some ErrCachedClosed
          then cl px (s\<lparr>calls := Suc (calls s)\<rparr>) os
          else if (case r of None \<Rightarrow> False | Some m \<Rightarrow> Truncated m) \<and>
                  \<not> forceTCP os \<and> preferUDP os
               then cl px (s\<lparr>calls := Suc (calls s)\<rparr>) (os\<lparr>forceTCP := True\<rparr>)
               else Some ((r, e), s\<lparr>calls := Suc (calls s)\<rparr>, os)) = Some y"
    obtain r e where c: "Connect px (calls s) os = (r, e)" by (cases "Connect px (calls s) os")
    consider (closed) "e = Some ErrCachedClosed"
      | (trunc) "e \<noteq> Some ErrCachedClosed"
          "(case r of None \<Rightarrow> False | Some m \<Rightarrow> Truncated m) \<and> \<not> forceTCP os \<and> preferUDP os"
      | (leave) "e \<noteq> Some ErrCachedClosed"
          "\<not> ((case r of None \<Rightarrow> False | Some m \<Rightarrow> Truncated m) \<and> \<not> forceTCP os \<and> preferUDP os)"
      by blast
    then show "?P px s os y"
    proof cases
      case closed
      with body c have "cl px (s\<lparr>calls := Suc (calls s)\<rparr>) os = Some y" by simp
      from IH [OF this] show ?thesis by simp
    next
      case trunc
      with body c have "cl px (s\<lparr>calls := Suc (calls s)\<rparr>) (os\<lparr>forceTCP := True\<rparr>) = Some y"
        by simp
      from IH [OF this] show ?thesis by simp
    next
      case leave
      with body c have "y = ((r, e), s\<lparr>calls := Suc (calls s)\<rparr>, os)" by auto
      then show ?thesis by simp
    qed
  qed
  then show ?thesis by simp
qed

text \<open>A call of \<^verbatim>\<open>Connect\<close> after which the inner loop is left.\<close>

lemma connect_loop_final:
  assumes "Connect px (calls s) os = (r, e)" "e \<noteq> Some ErrCachedClosed"
    "\<not> ((case r of None \<Rightarrow> False | Some m \<Rightarrow> Truncated m) \<and> \<not> forceTCP os \<and> preferUDP os)"
  shows "connect_loop px s os = Some ((r, e), s\<lparr>calls := Suc (calls s)\<rparr>, os)"
  using assms by (subst connect_loop.simps) auto

lemma connect_loop_generic:
  assumes "generic_failure px"
  shows "\<exists>r err. connect_loop px s os = Some ((r, Some err), s\<lparr>calls := Suc (calls s)\<rparr>, os)"
proof -
  obtain r e where c: "Connect px (calls s) os = (r, e)" by (cases "Connect px (calls s) os")
  from assms have "case Connect px (calls s) os of
        (r, e) \<Rightarrow> e \<noteq> None \<and> e \<noteq> Some ErrCachedClosed \<and>
                  (case r of None \<Rightarrow> True | Some m \<Rightarrow> \<not> Truncated m)"
    by (simp add: generic_failure_def)
  with c have e: "e \<noteq> None" "e \<noteq> Some ErrCachedClosed"
    and r: "(case r of None \<Rightarrow> True | Some m \<Rightarrow> \<not> Truncated m)"
    by simp_all
  from r have "\<not> ((case r of None \<Rightarrow> False | Some m \<Rightarrow> Truncated m) \<and> \<not> forceTCP os \<and> preferUDP os)"
    by (cases r) simp_all
  from connect_loop_final [OF c e(2) this] e(1) show ?thesis by auto
qed

lemma word32_succ:
  fixes a b :: "32 word"
  assumes "a < b"
  shows "unat (a + 1) = Suc (unat a)"
proof -
  from assms have "a + 1 \<noteq> 0"
    by (metis inc_less_eq_self_iff_eq word_order.extremum_strict word_zero_le)
  then have "1 + a \<noteq> 0" by (simp add: add.commute)
  from unatSuc [OF this] show ?thesis by (simp add: add.commute)
qed

lemma worker_loop_done:
  "\<not> fails s < maxfails f \<Longrightarrow> worker_loop Match req f px s = Some (Inr s)"
  by (subst worker_loop.simps) simp

lemma worker_loop_failure:
  assumes "fails s < maxfails f"
    and "connect_loop px s (opts f) = Some ((r, Some e), s1, os)"
  shows "worker_loop Match req f px s =
     (case count_failure f px s1 of (s2, down) \<Rightarrow>
        if \<not> down then worker_loop Match req f px s2
        else Some (Inr (push \<lparr>ret = None, code = 0, upstreamErr = Some e\<rparr> s2)))"
  using assms by (subst worker_loop.simps) simp

lemma worker_loop_reply:
  assumes "fails s < maxfails f"
    and "connect_loop px s (opts f) = Some ((Some m, None), s1, os)"
  shows "worker_loop Match req f px s =
     Some (Inr (push \<lparr>ret = Some (if Match m then m else SetRcode req RcodeFormatError),
                       code = 0, upstreamErr = None\<rparr> s1))"
  using assms by (subst worker_loop.simps) simp

lemma worker_loop_generic:
  assumes g: "generic_failure px"
  shows "\<exists>s'. worker_loop Match req f px s = Some (Inr s') \<and>
          calls s' = calls s + attempts (Down px (maxfails f)) (downs s) (unat (maxfails f) - unat (fails s))"
proof (induction "unat (maxfails f) - unat (fails s)" arbitrary: s)
  case 0
  then have "\<not> fails s < maxfails f" by (simp add: word_less_nat_alt)
  then show ?case using 0 by (simp add: worker_loop_done)
next
  case (Suc n)
  then have lt: "fails s < maxfails f" by (simp add: word_less_nat_alt)
  from connect_loop_generic [OF g] obtain r e where
    cl: "connect_loop px s (opts f) = Some ((r, Some e), s\<lparr>calls := Suc (calls s)\<rparr>, opts f)"
    by blast
  let ?s1 = "s\<lparr>calls := Suc (calls s)\<rparr>"
  obtain s2 down where cf: "count_failure f px ?s1 = (s2, down)"
    by (cases "count_failure f px ?s1")
  then have s2: "fails s2 = fails s + 1" "calls s2 = Suc (calls s)" "downs s2 = Suc (downs s)"
    and down: "down = Down px (maxfails f) (downs s)"
    by (auto simp: count_failure_def Let_def split: if_splits)
  have w: "worker_loop Match req f px s =
     (if \<not> down then worker_loop Match req f px s2
        else Some (Inr (push \<lparr>ret = None, code = 0, upstreamErr = Some e\<rparr> s2)))"
    using worker_loop_failure [OF lt cl] cf by simp
  have n: "n = unat (maxfails f) - unat (fails s2)"
    using Suc.hyps(2) s2(1) word32_succ [OF lt] by simp
  have a: "attempts (Down px (maxfails f)) (downs s) (unat (maxfails f) - unat (fails s)) =
      (if down then 1 else Suc (attempts (Down px (maxfails f)) (downs s2) (unat (maxfails f) - unat (fails s2))))"
    using Suc.hyps(2) n down s2(3) by (metis attempts.simps(2))
  show ?case
  proof (cases down)
    case True
    with w a s2 show ?thesis by (simp add: push_def)
  next
    case False
    from Suc.hyps(1) [OF n] obtain s' where
      "worker_loop Match req f px s2 = Some (Inr s')"
      "calls s' = calls s2 + attempts (Down px (maxfails f)) (downs s2) (unat (maxfails f) - unat (fails s2))"
      by blast
    with False w a s2 show ?thesis by simp
  qed
qed

lemma attempts_le: "attempts down k n \<le> n"
  by (induction n arbitrary: k) simp_all

lemma attempts_pos: "0 < n \<Longrightarrow> 0 < attempts down k n"
  by (cases n) simp_all

lemma attempts_all:
  "(\<forall>j. k \<le> j \<and> Suc j < k + n \<longrightarrow> \<not> down j) \<Longrightarrow> attempts down k n = n"
proof (induction n arbitrary: k)
  case 0
  show ?case by simp
next
  case (Suc n)
  show ?case
  proof (cases n)
    case 0
    then show ?thesis by simp
  next
    case (Suc n')
    with Suc.prems have "\<not> down k" by simp
    moreover have "attempts down (Suc k) n = n"
      using Suc.prems by (intro Suc.IH) simp
    ultimately show ?thesis by simp
  qed
qed

lemma count_failure_keeps:
  "count_failure f px s = (s2, d) \<Longrightarrow> sent s2 = sent s \<and> calls s2 = calls s"
  by (auto simp: count_failure_def Let_def split: if_splits)

text \<open>
  A worker that returns has sent at most one value on the channel, so the values arrive
  in the order in which the workers finish and every order is possible.
\<close>

lemma worker_loop_sends_at_most_one:
  assumes "worker_loop Match req f px s = Some (Inr s')"
  shows "sent s' = sent s \<or> (\<exists>resp. sent s' = sent s @ [resp])"
proof -
  let ?P = "\<lambda>(Match :: Msg \<Rightarrow> bool) (req :: Msg) (f :: Forward) (px :: Proxy) s (y :: fault + wstate).
     case y of Inl _ \<Rightarrow> True
     | Inr s' \<Rightarrow> sent s' = sent s \<or> (\<exists>resp. sent s' = sent s @ [resp])"
  have "?P Match req f px s (Inr s')"
  proof (rule worker_loop.raw_induct [where P = ?P, OF _ assms])
    fix wl Match req f px s y
    assume IH: "\<And>Match req f px s y. wl Match req f px s = Some y \<Longrightarrow> ?P Match req f px s y"
      and body: "(if fails s < maxfails f
        then Option.bind (connect_loop px s (opts f))
              (\<lambda>((r, e), s1, os).
                  case e of
                  None \<Rightarrow>
                    (case r of None \<Rightarrow> Some (Inl NilDeref)
                    | Some m \<Rightarrow>
                        if \<not> Match m
                        then Some (Inr (push \<lparr>ret = Some (SetRcode req RcodeFormatError),
                                               code = 0, upstreamErr = None\<rparr> s1))
                        else Some (Inr (push \<lparr>ret = Some m, code = 0, upstreamErr = None\<rparr> s1)))
                  | Some er \<Rightarrow>
                      (case count_failure f px s1 of
                      (s2, down) \<Rightarrow>
                        if \<not> down then wl Match req f px s2
                        else Some (Inr (push \<lparr>ret = None, code = 0, upstreamErr = Some er\<rparr> s2))))
        else Some (Inr s)) = Some y"
    show "?P Match req f px s y"
    proof (cases "fails s < maxfails f")
      case False
      with body show ?thesis by auto
    next
      case True
      with body obtain r e s1 os where
        cl: "connect_loop px s (opts f) = Some ((r, e), s1, os)"
        and rest: "(case e of
                  None \<Rightarrow>
                    (case r of None \<Rightarrow> Some (Inl NilDeref)
                    | Some m \<Rightarrow>
                        if \<not> Match m
                        then Some (Inr (push \<lparr>ret = Some (SetRcode req RcodeFormatError),
                                               code = 0, upstreamErr = None\<rparr> s1))
                        else Some (Inr (push \<lparr>ret = Some m, code = 0, upstreamErr = None\<rparr> s1)))
                  | Some er \<Rightarrow>
                      (case count_failure f px s1 of
                      (s2, down) \<Rightarrow>
                        if \<not> down then wl Match req f px s2
                        else Some (Inr (push \<lparr>ret = None, code = 0, upstreamErr = Some er\<rparr> s2)))) = Some y"
        by (auto simp: bind_eq_Some_conv)
      from connect_loop_keeps [OF cl] have k: "sent s1 = sent s" by simp
      show ?thesis
      proof (cases e)
        case None
        with rest k show ?thesis by (auto simp: push_def split: option.splits if_splits)
      next
        case (Some er)
        obtain s2 down where cf: "count_failure f px s1 = (s2, down)"
          by (cases "count_failure f px s1")
        from count_failure_keeps [OF cf] k have k2: "sent s2 = sent s" by simp
        show ?thesis
        proof (cases down)
          case True
          with rest Some cf k2 show ?thesis by (auto simp: push_def)
        next
          case False
          with rest Some cf have "wl Match req f px s2 = Some y" by simp
          from IH [OF this] k2 show ?thesis by (simp split: sum.splits)
        qed
      qed
    qed
  qed
  then show ?thesis by simp
qed

text \<open>
  A worker whose every attempt fails makes as many attempts as \<open>attempts\<close> says.
\<close>

lemma worker_generic:
  assumes "generic_failure px"
  shows "\<exists>s. worker Match req f px = Some (Inr s) \<and>
          calls s = attempts (Down px (maxfails f)) 1 (unat (maxfails f))"
  using worker_loop_generic [OF assms, of Match req f worker_init]
  by (simp add: worker_def worker_init_def)

text \<open>
  Claim C5, amended.  For every \<^verbatim>\<open>maxfails > 0\<close>, a worker whose upstream fails every
  \<^verbatim>\<open>Connect\<close> call with a generic transport error returns after at least one and at most
  \<^verbatim>\<open>maxfails\<close> attempts: it stops after the first failure after which \<^verbatim>\<open>proxy.Down\<close> is
  true, and it makes exactly \<^verbatim>\<open>maxfails\<close> attempts when \<^verbatim>\<open>proxy.Down\<close> is false after each
  of the first \<^verbatim>\<open>maxfails - 1\<close> failures.
\<close>

theorem failing_worker_attempts:
  assumes "0 < maxfails f" and "generic_failure px"
  shows "\<exists>s. worker Match req f px = Some (Inr s)
           \<and> calls s = attempts (Down px (maxfails f)) 1 (unat (maxfails f))
           \<and> 1 \<le> calls s \<and> calls s \<le> unat (maxfails f)
           \<and> ((\<forall>k. 1 \<le> k \<and> k < unat (maxfails f) \<longrightarrow> \<not> Down px (maxfails f) k)
                \<longrightarrow> calls s = unat (maxfails f))"
proof -
  from worker_generic [OF assms(2)] obtain s where
    s: "worker Match req f px = Some (Inr s)"
       "calls s = attempts (Down px (maxfails f)) 1 (unat (maxfails f))"
    by blast
  from assms(1) have pos: "0 < unat (maxfails f)" by (simp add: word_less_nat_alt)
  have "1 \<le> calls s" using attempts_pos [OF pos, of "Down px (maxfails f)" 1] s(2) by simp
  moreover have "calls s \<le> unat (maxfails f)" using attempts_le s(2) by simp
  moreover have "calls s = unat (maxfails f)"
    if "\<forall>k. 1 \<le> k \<and> k < unat (maxfails f) \<longrightarrow> \<not> Down px (maxfails f) k"
    using that s(2) attempts_all [of 1 "unat (maxfails f)" "Down px (maxfails f)"] by simp
  ultimately show ?thesis using s by blast
qed

lemma generic_px_timeout: "generic_failure px_timeout"
  by (simp add: generic_failure_def px_timeout_def)

lemma generic_px_goes_down: "generic_failure px_goes_down"
  by (simp add: generic_failure_def px_goes_down_def)

text \<open>An upstream that is never marked down, with \<^verbatim>\<open>maxfails = 3\<close>: three attempts.\<close>

theorem failing_worker_attempts_witness:
  "0 < maxfails (ex_forward [px_timeout] 3) \<and> generic_failure px_timeout
   \<and> (\<exists>s. worker ex_Match ex_query (ex_forward [px_timeout] 3) px_timeout = Some (Inr s)
          \<and> calls s = 3)"
proof -
  have h1: "0 < maxfails (ex_forward [px_timeout] 3)" by (simp add: ex_forward_def)
  have h3: "\<forall>k. 1 \<le> k \<and> k < unat (maxfails (ex_forward [px_timeout] 3))
          \<longrightarrow> \<not> Down px_timeout (maxfails (ex_forward [px_timeout] 3)) k"
    by (simp add: px_timeout_def)
  have u: "unat (maxfails (ex_forward [px_timeout] 3)) = 3" by (simp add: ex_forward_def)
  from failing_worker_attempts [OF h1 generic_px_timeout, of ex_Match ex_query] h3 u
  have "\<exists>s. worker ex_Match ex_query (ex_forward [px_timeout] 3) px_timeout = Some (Inr s)
          \<and> calls s = 3"
    by auto
  with h1 generic_px_timeout show ?thesis by blast
qed

text \<open>
  Claim C5, as stated, is false.  It says that such a worker makes exactly \<^verbatim>\<open>maxfails\<close>
  attempts, not fewer.  With \<^verbatim>\<open>maxfails = 3\<close> and an upstream that the health checker
  marks down before the worker's first failure is counted, the worker makes one attempt
  and sends the transport error.
\<close>

theorem exactly_maxfails_attempts_counterexample:
  "0 < maxfails (ex_forward [px_goes_down] 3) \<and> generic_failure px_goes_down
   \<and> unat (maxfails (ex_forward [px_goes_down] 3)) = 3
   \<and> worker ex_Match ex_query (ex_forward [px_goes_down] 3) px_goes_down =
       Some (Inr \<lparr>calls = 1, fails = 1, downs = 2, probes = 1,
                  sent = [failed (ErrOther ''i/o timeout'')]\<rparr>)"
proof -
  have "worker ex_Match ex_query (ex_forward [px_goes_down] 3) px_goes_down =
       Some (Inr \<lparr>calls = 1, fails = 1, downs = 2, probes = 1,
                  sent = [failed (ErrOther ''i/o timeout'')]\<rparr>)"
    by (simp add: worker_def worker_init_def worker_loop.simps connect_loop.simps
        count_failure_def push_def failed_def ex_forward_def px_goes_down_def)
  moreover have "0 < maxfails (ex_forward [px_goes_down] 3)"
    and "unat (maxfails (ex_forward [px_goes_down] 3)) = 3"
    by (simp_all add: ex_forward_def)
  ultimately show ?thesis using generic_px_goes_down by simp
qed

text \<open>
  Claim C1 says that every worker sends exactly one result before it returns.  The
  code does not: with \<^verbatim>\<open>maxfails = 2\<close>, an upstream that fails both attempts and is not
  marked down, the worker returns after the second failure and has sent nothing; with
  \<^verbatim>\<open>maxfails = 0\<close> and an upstream that answers every call, the worker returns without
  calling \<^verbatim>\<open>Connect\<close> and has sent nothing.
\<close>

theorem worker_sends_nothing_when_budget_is_used_up:
  "worker ex_Match ex_query (ex_forward [px_timeout] 2) px_timeout =
     Some (Inr \<lparr>calls = 2, fails = 2, downs = 3, probes = 2, sent = []\<rparr>)
   \<and> worker ex_Match ex_query (ex_forward [px_answers] 0) px_answers =
     Some (Inr \<lparr>calls = 0, fails = 0, downs = 1, probes = 0, sent = []\<rparr>)"
  by (simp add: worker_def worker_init_def worker_loop.simps
      connect_loop.simps count_failure_def push_def ex_forward_def px_timeout_def)

text \<open>
  Claim C6.  When the connect phase of an attempt ends with a reply and no error, and
  \<^verbatim>\<open>state.Match\<close> rejects the reply, the worker returns at once: it sends one result, whose
  reply is the synthesized message with rcode \<^verbatim>\<open>FormatError\<close> and whose error is nil, it
  makes no further \<^verbatim>\<open>Connect\<close> call, and its failure counter, its health checks and its
  \<^verbatim>\<open>Down\<close> calls are as they were at the start of the attempt.
\<close>

theorem mismatch_gives_format_error:
  assumes "fails s < maxfails f"
    and "connect_loop px s (opts f) = Some ((Some m, None), s1, os)"
    and "\<not> Match m"
  shows "\<exists>s'. worker_loop Match req f px s = Some (Inr s')
           \<and> sent s' = sent s @ [\<lparr>ret = Some (SetRcode req RcodeFormatError), code = 0,
                                     upstreamErr = None\<rparr>]
           \<and> Rcode (SetRcode req RcodeFormatError) = RcodeFormatError
           \<and> calls s' = calls s1 \<and> fails s' = fails s \<and> probes s' = probes s
           \<and> downs s' = downs s"
  using worker_loop_reply [OF assms(1,2), of Match req] assms(3) connect_loop_keeps [OF assms(2)]
  by (simp add: push_def SetRcode_def)

text \<open>An upstream that answers with the reply to another query.\<close>

theorem mismatch_gives_format_error_witness:
  "fails worker_init < maxfails (ex_forward [px_wrong_id] 2)
   \<and> connect_loop px_wrong_id worker_init (opts (ex_forward [px_wrong_id] 2)) =
       Some ((Some reply_wrong_id, None), worker_init\<lparr>calls := 1\<rparr>, ex_opts)
   \<and> \<not> ex_Match reply_wrong_id
   \<and> (\<exists>s'. worker ex_Match ex_query (ex_forward [px_wrong_id] 2) px_wrong_id = Some (Inr s')
          \<and> sent s' = [ok (SetRcode ex_query RcodeFormatError)]
          \<and> Rcode (SetRcode ex_query RcodeFormatError) = 1
          \<and> calls s' = 1 \<and> fails s' = 0 \<and> probes s' = 0)"
proof -
  have h1: "fails worker_init < maxfails (ex_forward [px_wrong_id] 2)"
    by (simp add: worker_init_def ex_forward_def)
  have h2: "connect_loop px_wrong_id worker_init (opts (ex_forward [px_wrong_id] 2)) =
       Some ((Some reply_wrong_id, None), worker_init\<lparr>calls := 1\<rparr>, ex_opts)"
    by (simp add: connect_loop.simps px_wrong_id_def worker_init_def ex_forward_def
        reply_wrong_id_def reply_A_def ex_query_def)
  have h3: "\<not> ex_Match reply_wrong_id"
    by (simp add: ex_Match_def reply_wrong_id_def reply_A_def ex_query_def)
  from mismatch_gives_format_error [where Match = ex_Match and req = ex_query, OF h1 h2 h3]
  obtain s' where
    "worker_loop ex_Match ex_query (ex_forward [px_wrong_id] 2) px_wrong_id worker_init = Some (Inr s')"
    "sent s' = sent worker_init @ [\<lparr>ret = Some (SetRcode ex_query RcodeFormatError), code = 0,
                                     upstreamErr = None\<rparr>]"
    "Rcode (SetRcode ex_query RcodeFormatError) = RcodeFormatError"
    "calls s' = calls (worker_init\<lparr>calls := 1\<rparr>)" "fails s' = fails worker_init"
    "probes s' = probes worker_init"
    by blast
  then have "worker ex_Match ex_query (ex_forward [px_wrong_id] 2) px_wrong_id = Some (Inr s')
          \<and> sent s' = [ok (SetRcode ex_query RcodeFormatError)]
          \<and> Rcode (SetRcode ex_query RcodeFormatError) = 1
          \<and> calls s' = 1 \<and> fails s' = 0 \<and> probes s' = 0"
    by (simp add: worker_def ok_def worker_init_def RcodeFormatError_def)
  with h1 h2 h3 show ?thesis by blast
qed

text \<open>
  Claim C7.  When a \<^verbatim>\<open>Connect\<close> call returns a truncated reply (and not the
  \<^verbatim>\<open>ErrCachedClosed\<close> error, which is tested first), \<^verbatim>\<open>forceTCP\<close> is not set in the options
  of the attempt and \<^verbatim>\<open>preferUDP\<close> is configured, the worker goes on with the next
  \<^verbatim>\<open>Connect\<close> call with \<^verbatim>\<open>forceTCP\<close> set in its options and with the failure counter
  unchanged; and when that call does not return \<^verbatim>\<open>ErrCachedClosed\<close>, its result is the
  result of the connect phase: there is one retry.
\<close>

theorem truncated_reply_retries_over_tcp:
  assumes "Connect px (calls s) os = (Some m, e)" and "e \<noteq> Some ErrCachedClosed"
    and "Truncated m" and "\<not> forceTCP os" and "preferUDP os"
  shows "connect_loop px s os =
           connect_loop px (s\<lparr>calls := Suc (calls s)\<rparr>) (os\<lparr>forceTCP := True\<rparr>)
         \<and> fails (s\<lparr>calls := Suc (calls s)\<rparr>) = fails s
         \<and> (\<forall>r2 e2. Connect px (Suc (calls s)) (os\<lparr>forceTCP := True\<rparr>) = (r2, e2)
                \<and> e2 \<noteq> Some ErrCachedClosed \<longrightarrow>
              connect_loop px s os =
                Some ((r2, e2), s\<lparr>calls := Suc (Suc (calls s))\<rparr>, os\<lparr>forceTCP := True\<rparr>))"
proof -
  have step: "connect_loop px s os =
           connect_loop px (s\<lparr>calls := Suc (calls s)\<rparr>) (os\<lparr>forceTCP := True\<rparr>)"
    using assms by (subst connect_loop.simps) simp
  have "connect_loop px s os =
          Some ((r2, e2), s\<lparr>calls := Suc (Suc (calls s))\<rparr>, os\<lparr>forceTCP := True\<rparr>)"
    if "Connect px (Suc (calls s)) (os\<lparr>forceTCP := True\<rparr>) = (r2, e2)"
      and "e2 \<noteq> Some ErrCachedClosed" for r2 e2
    using connect_loop_final [of px "s\<lparr>calls := Suc (calls s)\<rparr>" "os\<lparr>forceTCP := True\<rparr>" r2 e2]
      that step by simp
  with step show ?thesis by simp
qed

text \<open>An upstream whose UDP reply is truncated: the second call, over TCP, is the last.\<close>

theorem truncated_reply_retries_over_tcp_witness:
  "Connect px_truncates (calls worker_init) ex_opts = (Some reply_truncated, None)
   \<and> Truncated reply_truncated \<and> \<not> forceTCP ex_opts \<and> preferUDP ex_opts
   \<and> Connect px_truncates (Suc (calls worker_init)) (ex_opts\<lparr>forceTCP := True\<rparr>) = (Some reply_A, None)
   \<and> connect_loop px_truncates worker_init ex_opts =
       Some ((Some reply_A, None), worker_init\<lparr>calls := 2\<rparr>, ex_opts\<lparr>forceTCP := True\<rparr>)
   \<and> fails (worker_init\<lparr>calls := 2\<rparr>) = fails worker_init"
proof -
  have h1: "Connect px_truncates (calls worker_init) ex_opts = (Some reply_truncated, None)"
    by (simp add: px_truncates_def ex_opts_def)
  have h2: "(None :: error option) \<noteq> Some ErrCachedClosed" by simp
  have h3: "Truncated reply_truncated" by (simp add: reply_truncated_def)
  have h4: "\<not> forceTCP ex_opts" and h5: "preferUDP ex_opts" by (simp_all add: ex_opts_def)
  have c2: "Connect px_truncates (Suc (calls worker_init)) (ex_opts\<lparr>forceTCP := True\<rparr>) = (Some reply_A, None)"
    by (simp add: px_truncates_def)
  from truncated_reply_retries_over_tcp [OF h1 h2 h3 h4 h5]
  have "\<forall>r2 e2. Connect px_truncates (Suc (calls worker_init)) (ex_opts\<lparr>forceTCP := True\<rparr>) = (r2, e2)
                \<and> e2 \<noteq> Some ErrCachedClosed \<longrightarrow>
              connect_loop px_truncates worker_init ex_opts =
                Some ((r2, e2), worker_init\<lparr>calls := Suc (Suc (calls worker_init))\<rparr>,
                      ex_opts\<lparr>forceTCP := True\<rparr>)"
    by blast
  with c2 h2 have "connect_loop px_truncates worker_init ex_opts =
       Some ((Some reply_A, None), worker_init\<lparr>calls := Suc (Suc (calls worker_init))\<rparr>,
             ex_opts\<lparr>forceTCP := True\<rparr>)"
    by blast
  moreover have "worker_init\<lparr>calls := Suc (Suc (calls worker_init))\<rparr> = worker_init\<lparr>calls := 2\<rparr>"
    by (simp add: worker_init_def)
  ultimately show ?thesis using h1 h3 h4 h5 c2 by simp
qed


section \<open>ServeDNS: theorems\<close>

lemma live_loop_eq:
  "live_loop f pxs live = live @ filter (\<lambda>px. \<not> Down px (maxfails f) 0) pxs"
  by (induction pxs arbitrary: live) simp_all

lemma arrival_Nil [simp]: "arrival ks [] = []"
  by (cases ks) simp_all

text \<open>Every schedule gives a permutation of the values sent.\<close>

lemma mset_take_drop: "mset (take i ys) + mset (drop i ys) = mset ys"
  by (metis append_take_drop_id mset_append)

lemma mset_arrival: "mset (arrival ks xs) = mset xs"
  by (induction ks xs rule: arrival.induct) (simp_all add: Let_def mset_take_drop)

lemma fanout_silent:
  assumes "\<forall>px \<in> set live. \<exists>s. worker Match req f px = Some (Inr s) \<and> sent s = []"
  shows "fanout Match sched req f live = Some (Inr [])"
proof -
  let ?runs = "map (worker Match req f) live"
  have a: "\<not> list_ex (\<lambda>run. case run of Some (Inl _) \<Rightarrow> True | _ \<Rightarrow> False) ?runs"
    using assms by (auto simp: list_ex_iff)
  have b: "\<not> list_ex (\<lambda>run. run = None) ?runs"
    using assms by (auto simp: list_ex_iff)
  have c: "concat (map (\<lambda>run. case run of Some (Inr s) \<Rightarrow> sent s | _ \<Rightarrow> []) ?runs) = []"
    using assms by (induction live) auto
  show ?thesis unfolding fanout_def Let_def by (simp only: a b c if_False arrival_Nil)
qed

lemma aggregate_Nil:
  "aggregate [] = Inr \<lparr>rcode = RcodeServerFailure, err = Some ErrNoHealthy, written = None\<rparr>"
  by (simp add: aggregate_def)

text \<open>
  Claim C3.  For an admitted query, when the live upstream set (the list of the policy
  without the upstreams whose \<^verbatim>\<open>Down(maxfails)\<close> is true) is empty, \<^verbatim>\<open>ServeDNS\<close> returns
  the server-failure rcode with \<^verbatim>\<open>ErrNoHealthy\<close> and writes no reply.
\<close>

theorem no_live_upstream_fails:
  assumes "match Matches f name" and "live_set f = []"
  shows "live_loop f (List_f f) [] = []
         \<and> ServeDNS Matches Match nxt sched f req name =
             Some (Inr \<lparr>rcode = RcodeServerFailure, err = Some ErrNoHealthy, written = None\<rparr>)"
proof -
  from assms(2) have l: "live_loop f (List_f f) [] = []"
    by (simp add: live_loop_eq live_set_def)
  have "fanout Match sched req f [] = Some (Inr [])" by (rule fanout_silent) simp
  with assms(1) l show ?thesis by (simp add: ServeDNS_def aggregate_Nil)
qed

text \<open>One configured upstream, down at dispatch.\<close>

theorem no_live_upstream_fails_witness:
  "match suffix_matches (ex_forward [px_down] 2) ''www.example.org.''
   \<and> live_set (ex_forward [px_down] 2) = []
   \<and> ServeDNS suffix_matches ex_Match None [] (ex_forward [px_down] 2) ex_query ''www.example.org.'' =
       Some (Inr \<lparr>rcode = 2, err = Some ErrNoHealthy, written = None\<rparr>)"
proof -
  have h1: "match suffix_matches (ex_forward [px_down] 2) ''www.example.org.''"
    by (simp add: match_def isAllowedDomain_def ex_forward_def suffix_matches_def)
  have h2: "live_set (ex_forward [px_down] 2) = []"
    by (simp add: live_set_def List_f_def ex_forward_def px_down_def)
  from no_live_upstream_fails [OF h1 h2] h1 h2 show ?thesis
    by (simp add: RcodeServerFailure_def)
qed

text \<open>
  Claim C10.  When \<^verbatim>\<open>maxfails\<close> is 0, for an admitted query every worker returns in its
  initial state, that is without a \<^verbatim>\<open>Connect\<close> call and without a result sent, and
  \<^verbatim>\<open>ServeDNS\<close> returns the server-failure rcode with \<^verbatim>\<open>ErrNoHealthy\<close> and writes no
  reply.
\<close>

theorem maxfails_zero_never_connects:
  assumes "maxfails f = 0" and "match Matches f name"
  shows "(\<forall>px. worker Match req f px = Some (Inr worker_init))
         \<and> calls worker_init = 0 \<and> sent worker_init = []
         \<and> ServeDNS Matches Match nxt sched f req name =
             Some (Inr \<lparr>rcode = RcodeServerFailure, err = Some ErrNoHealthy, written = None\<rparr>)"
proof -
  have w: "worker Match req f px = Some (Inr worker_init)" for px
    using assms(1) by (simp add: worker_def worker_loop_done)
  have i: "calls worker_init = 0" "sent worker_init = []" by (simp_all add: worker_init_def)
  have "fanout Match sched req f live = Some (Inr [])" for live
    by (rule fanout_silent) (simp add: w i)
  with assms(2) w i show ?thesis by (simp add: ServeDNS_def aggregate_Nil)
qed

text \<open>One live upstream that would answer, and \<^verbatim>\<open>maxfails = 0\<close>.\<close>

theorem maxfails_zero_never_connects_witness:
  "maxfails (ex_forward [px_answers] 0) = 0
   \<and> match suffix_matches (ex_forward [px_answers] 0) ''www.example.org.''
   \<and> live_set (ex_forward [px_answers] 0) = [px_answers]
   \<and> worker ex_Match ex_query (ex_forward [px_answers] 0) px_answers = Some (Inr worker_init)
   \<and> ServeDNS suffix_matches ex_Match None [] (ex_forward [px_answers] 0) ex_query ''www.example.org.'' =
       Some (Inr \<lparr>rcode = 2, err = Some ErrNoHealthy, written = None\<rparr>)"
proof -
  have h1: "maxfails (ex_forward [px_answers] 0) = 0" by (simp add: ex_forward_def)
  have h2: "match suffix_matches (ex_forward [px_answers] 0) ''www.example.org.''"
    by (simp add: match_def isAllowedDomain_def ex_forward_def suffix_matches_def)
  have l: "live_set (ex_forward [px_answers] 0) = [px_answers]"
    by (simp add: live_set_def List_f_def ex_forward_def px_answers_def)
  from maxfails_zero_never_connects [OF h1 h2] h1 h2 l show ?thesis
    by (simp add: RcodeServerFailure_def)
qed

end
